theory Spec2Isabelle
  imports Main "HOL-Library.Word" "HOL-Library.Sublist"
begin

section \<open>The tree of nodes\<close>

text \<open>
  The Go struct \<open>node\<close> of \<open>main.go\<close>. The slice \<open>children\<close> holds pointers to nodes that
  \<open>loadChildren\<close> allocates, each stored in exactly one slice, so the pointer graph below the
  root is a tree and a node value carries its subtree. The field \<open>parent\<close> is written when a
  child is created and never read; it is the node one step up and is not stored.
\<close>

datatype node = Node
  (path: string)
  (isDir: bool)
  (children: "node list")
  (expanded: bool)
  (selected: bool)
  (childrenLoaded: bool)

text \<open>
  A pointer \<open>*node\<close> into the tree under the root is the list of child indices that leads
  from the root to the node; the root itself is \<open>[]\<close>. \<open>deref\<close> reads through a pointer and
  \<open>assign\<close> writes the object it points to.
\<close>

type_synonym ptr = "nat list"

fun deref :: "node \<Rightarrow> ptr \<Rightarrow> node option" where
  "deref n [] = Some n"
| "deref n (i # p) = (if i < length (children n) then deref (children n ! i) p else None)"

fun assign :: "ptr \<Rightarrow> node \<Rightarrow> node \<Rightarrow> node" where
  "assign [] v n = v"
| "assign (i # p) v (Node pa d cs e s l) =
     (if i < length cs then Node pa d (cs[i := assign p v (cs ! i)]) e s l
      else Node pa d cs e s l)"

datatype error = NilPointer | DanglingPointer

section \<open>Selection\<close>

text \<open>\<open>func (n *node) toggleSelect(on bool)\<close>: the node after the call.\<close>

fun toggleSelect :: "bool \<Rightarrow> node \<Rightarrow> node" where
  "toggleSelect on (Node pa d cs e s l) =
     Node pa d (if d then map (toggleSelect on) cs else cs) e on l"

section \<open>The operating system and the libraries\<close>

datatype sessionState = fileTreeView | textAreaView | acceptView

datatype msg =
    WindowSizeMsg int int
  | KeyMsg string
  | FsEventMsg string "32 word"
  | FsErrMsg string
  | OtherMsg

datatype cmd = CmdNil | CmdQuit | CmdBatch

text \<open>
  What the program obtains from outside at one step: the file system (\<open>os.ReadDir\<close>,
  \<open>os.ReadFile\<close>), the functions of \<open>path/filepath\<close>, whether \<open>fsnotify.NewWatcher\<close>
  succeeds, and the state of the two widgets of the \<open>bubbles\<close> library: whether the list is
  editing its filter (\<open>SettingFilter\<close>), the index of the item under its cursor
  (\<open>SelectedItem\<close>, \<open>None\<close> when there is none), and the text the text area holds after
  its \<open>Update\<close>. A directory entry is its name and \<open>IsDir()\<close>.
\<close>

record env =
  pathAbs :: "string \<Rightarrow> string option"
  pathJoin :: "string \<Rightarrow> string \<Rightarrow> string"
  pathDir :: "string \<Rightarrow> string"
  pathBase :: "string \<Rightarrow> string"
  readDir :: "string \<Rightarrow> (string \<times> bool) list option"
  readFile :: "string \<Rightarrow> string option"
  newWatcherOk :: bool
  settingFilter :: bool
  selectedItem :: "nat option"
  taUpdate :: "msg \<Rightarrow> string \<Rightarrow> string"

section \<open>Loading a directory\<close>

text \<open>
  The watcher is the list of the paths handed to \<open>watcher.Add\<close>, or \<open>None\<close> for the nil
  pointer, on which \<open>Add\<close> panics. The loop of \<open>loadChildren\<close> appends one fresh child per
  entry and registers the directories.
\<close>

type_synonym watcher = "string list option"

fun loadLoop :: "env \<Rightarrow> string \<Rightarrow> (string \<times> bool) list \<Rightarrow> node list \<Rightarrow> watcher
    \<Rightarrow> error + (node list \<times> watcher)" where
  "loadLoop ev npath [] cs w = Inr (cs, w)"
| "loadLoop ev npath (f # fs) cs w =
     (let childPath = pathJoin ev npath (fst f);
          child = Node childPath (snd f) [] False False False;
          cs' = cs @ [child]
      in if isDir child
         then (case w of
                 None \<Rightarrow> Inl NilPointer
               | Some ws \<Rightarrow> loadLoop ev npath fs cs' (Some (ws @ [childPath])))
         else loadLoop ev npath fs cs' w)"

definition loadChildren :: "env \<Rightarrow> node \<Rightarrow> watcher \<Rightarrow> error + (node \<times> watcher)" where
  "loadChildren ev n w =
     (case readDir ev (path n) of
        None \<Rightarrow> Inr (n, w)
      | Some files \<Rightarrow>
          (case loadLoop ev (path n) files [] w of
             Inl e \<Rightarrow> Inl e
           | Inr (cs, w') \<Rightarrow>
               Inr (Node (path n) (isDir n) cs (expanded n) (selected n) True, w')))"

section \<open>The flattened view\<close>

text \<open>
  \<open>type item struct { node *node; depth int }\<close>. The closure \<open>recurse\<close> of \<open>flatten\<close>
  appends to the captured slice \<open>flat\<close>, which is passed and returned here; \<open>recurseLoop\<close>
  is its \<open>for\<close> loop over the children, with the index of the child for its pointer.
\<close>

record item =
  node :: ptr
  depth :: nat

fun recurse :: "node \<Rightarrow> ptr \<Rightarrow> nat \<Rightarrow> item list \<Rightarrow> item list"
and recurseLoop :: "node list \<Rightarrow> ptr \<Rightarrow> nat \<Rightarrow> nat \<Rightarrow> item list \<Rightarrow> item list" where
  "recurse (Node pa dr cs e s l) p d flat =
     (let flat' = flat @ [\<lparr>node = p, depth = d\<rparr>]
      in if e then recurseLoop cs p 0 (d + 1) flat' else flat')"
| "recurseLoop [] p i d flat = flat"
| "recurseLoop (c # cs) p i d flat = recurseLoop cs p (i + 1) d (recurse c (p @ [i]) d flat)"

definition flatten :: "node \<Rightarrow> item list" where
  "flatten rt = recurseLoop (children rt) [] 0 0 []"

section \<open>Searching the tree\<close>

text \<open>\<open>findNode\<close> returns the pointer to the first match, relative to its argument, or nil.\<close>

fun findNode :: "node \<Rightarrow> string \<Rightarrow> ptr option"
and findNodeLoop :: "node list \<Rightarrow> nat \<Rightarrow> string \<Rightarrow> ptr option" where
  "findNode (Node pa d cs e s l) target =
     (if pa = target then Some []
      else if l then findNodeLoop cs 0 target
      else None)"
| "findNodeLoop [] i target = None"
| "findNodeLoop (c # cs) i target =
     (case findNode c target of
        Some q \<Rightarrow> Some (i # q)
      | None \<Rightarrow> findNodeLoop cs (i + 1) target)"

section \<open>The serializer\<close>

text \<open>
  \<open>hasSelected\<close>: a selected file in the loaded part of the subtree. \<open>hasSelectedLoop\<close> is
  its \<open>for\<close> loop, which returns at the first child that has one.
\<close>

fun hasSelected :: "node \<Rightarrow> bool"
and hasSelectedLoop :: "node list \<Rightarrow> bool" where
  "hasSelected (Node pa d cs e s l) =
     (if s \<and> \<not> d then True
      else if l then hasSelectedLoop cs
      else False)"
| "hasSelectedLoop [] = False"
| "hasSelectedLoop (c # cs) = (if hasSelected c then True else hasSelectedLoop cs)"

text \<open>
  Go strings are byte sequences: the connectors of the tree diagram are written as the bytes
  of their UTF-8 encoding.
\<close>

abbreviation NL :: string where
  "NL \<equiv> [CHR 0x0A]"

definition glyphLast :: string where
  "glyphLast = [CHR 0xE2, CHR 0x94, CHR 0x94, CHR 0xE2, CHR 0x94, CHR 0x80,
                CHR 0xE2, CHR 0x94, CHR 0x80, CHR 0x20]"

definition glyphMid :: string where
  "glyphMid = [CHR 0xE2, CHR 0x94, CHR 0x9C, CHR 0xE2, CHR 0x94, CHR 0x80,
               CHR 0xE2, CHR 0x94, CHR 0x80, CHR 0x20]"

definition glyphBar :: string where
  "glyphBar = [CHR 0xE2, CHR 0x94, CHR 0x82, CHR 0x20, CHR 0x20, CHR 0x20]"

text \<open>
  The first loop of \<open>generateFileTree\<close> and of \<open>generateTreeRec\<close> keeps the children that
  are selected or have a selected file below them.
\<close>

definition keep :: "node \<Rightarrow> bool" where
  "keep c = (selected c \<or> hasSelected c)"

function generateTreeRec :: "env \<Rightarrow> node \<Rightarrow> string \<Rightarrow> bool \<Rightarrow> string"
and generateTreeLoop :: "env \<Rightarrow> node list \<Rightarrow> nat \<Rightarrow> nat \<Rightarrow> string \<Rightarrow> string \<Rightarrow> string" where
  "generateTreeRec ev (Node pa d cs e sl l) pfx isLast =
     (let name = pathBase ev pa;
          s = (if isLast then pfx @ glyphLast @ name @ NL
               else pfx @ glyphMid @ name @ NL);
          pfx' = (if isLast then pfx @ ''    '' else pfx @ glyphBar);
          kept = filter keep cs
      in generateTreeLoop ev kept (length kept) 0 pfx' s)"
| "generateTreeLoop ev [] len i pfx s = s"
| "generateTreeLoop ev (c # cs) len i pfx s =
     (let isLastChild = (int i = int len - 1)
      in generateTreeLoop ev cs len (i + 1) pfx (s @ generateTreeRec ev c pfx isLastChild))"
  by pat_completeness auto
termination
proof (relation "measure (\<lambda>x. case x of
          Inl (ev, n, pfx, isLast) \<Rightarrow> 2 * size n
        | Inr (ev, cs, len, i, pfx, s) \<Rightarrow> 2 * size_list size cs + 1)", goal_cases)
  case 1
  show ?case by simp
next
  case (2 ev pa d cs e sl l pfx isLast name s pfx' kept)
  have "size_list size (filter keep cs) \<le> size_list size cs"
    by (induction cs) auto
  with 2 show ?case by simp
next
  case 3
  then show ?case by simp
next
  case 4
  then show ?case by simp
qed

definition generateFileTree :: "env \<Rightarrow> node \<Rightarrow> string" where
  "generateFileTree ev rt =
     (let kept = filter keep (children rt)
      in generateTreeLoop ev kept (length kept) 0 [] [])"

text \<open>
  The closure \<open>collect\<close> of \<open>generatePrompt\<close> appends to the captured slice
  \<open>selectedFiles\<close>, passed and returned here.
\<close>

fun collect :: "node \<Rightarrow> string list \<Rightarrow> string list"
and collectLoop :: "node list \<Rightarrow> string list \<Rightarrow> string list" where
  "collect (Node pa d cs e s l) acc =
     (let acc' = (if s \<and> \<not> d then acc @ [pa] else acc)
      in if l then collectLoop cs acc' else acc')"
| "collectLoop [] acc = acc"
| "collectLoop (c # cs) acc = collectLoop cs (collect c acc)"

text \<open>The body of the loop over \<open>selectedFiles\<close>: what one file adds to the builder.\<close>

definition fileContent :: "env \<Rightarrow> string \<Rightarrow> string" where
  "fileContent ev p =
     (case readFile ev p of
        None \<Rightarrow> ''[Binary file]''
      | Some b \<Rightarrow> if CHR 0x00 \<in> set b then ''[Binary file]'' else b)"

definition fileBlock :: "env \<Rightarrow> string \<Rightarrow> string" where
  "fileBlock ev p =
     ''<file>'' @ NL @ ''<file_path>'' @ p @ ''</file_path>'' @ NL @ ''<file_content>'' @ NL
     @ fileContent ev p
     @ NL @ ''</file_content>'' @ NL @ ''</file>'' @ NL"

fun fileLoop :: "env \<Rightarrow> string list \<Rightarrow> string \<Rightarrow> string" where
  "fileLoop ev [] sb = sb"
| "fileLoop ev (p # ps) sb = fileLoop ev ps (sb @ fileBlock ev p)"

text \<open>
  \<open>render\<close> is \<open>generatePrompt\<close> on a root and the value of the text area;
  \<open>generateFileTree\<close> dereferences the root, so a nil root panics.
\<close>

definition render :: "env \<Rightarrow> node \<Rightarrow> string \<Rightarrow> string" where
  "render ev rt userText =
     (let sb = ''<file_tree>'' @ NL;
          sb = sb @ generateFileTree ev rt;
          sb = sb @ ''</file_tree>'' @ NL;
          selectedFiles = collect rt [];
          sb = fileLoop ev selectedFiles sb;
          sb = sb @ ''<user_request>'' @ NL @ userText @ NL @ ''</user_request>''
      in sb)"

section \<open>The session\<close>

text \<open>
  The struct \<open>model\<close>. The two widgets are library values: of the list the program reads
  \<open>SettingFilter\<close> and \<open>SelectedItem\<close> (both in \<open>env\<close>) and hands it \<open>flatItems\<close>; of the
  text area it reads \<open>Value()\<close>, the field \<open>textarea\<close> here. The error values are their
  messages.
\<close>

record model =
  root :: "node option"
  watcher :: watcher
  flatItems :: "item list"
  focus :: sessionState
  err :: "string option"
  prompt :: string
  width :: int
  height :: int
  quitting :: bool
  textarea :: string

text \<open>
  \<open>newModel\<close>. When \<open>filepath.Abs\<close> fails (\<open>pathAbs\<close> gives no path) the model holds
  only the error; here the error has the message \<open>''abs''\<close>. When \<open>fsnotify.NewWatcher\<close>
  fails the watcher is nil and \<open>watcher.Add(abspath)\<close> panics.
\<close>

definition newModel :: "env \<Rightarrow> string \<Rightarrow> error + model" where
  "newModel ev p =
     (case pathAbs ev p of
        None \<Rightarrow>
          Inr \<lparr>root = None, watcher = None, flatItems = [], focus = fileTreeView,
               err = Some ''abs'', prompt = [], width = 0, height = 0, quitting = False,
               textarea = []\<rparr>
      | Some abspath \<Rightarrow>
          if \<not> newWatcherOk ev then Inl NilPointer
          else
            (case loadChildren ev (Node abspath True [] True False False) (Some [abspath]) of
               Inl e \<Rightarrow> Inl e
             | Inr (rt, w) \<Rightarrow>
                 Inr \<lparr>root = Some rt, watcher = w, flatItems = flatten rt,
                      focus = fileTreeView, err = None, prompt = [], width = 0, height = 0,
                      quitting = False, textarea = []\<rparr>))"

text \<open>
  \<open>Init\<close> starts \<open>watchCmd(m.watcher)\<close>, which reads the channels of the watcher: a nil
  watcher panics there.
\<close>

definition Init :: "model \<Rightarrow> error + cmd" where
  "Init m = (case watcher m of None \<Rightarrow> Inl NilPointer | Some w \<Rightarrow> Inr CmdBatch)"

text \<open>
  \<open>m.list.SelectedItem().(item)\<close>: the cursor of the list is on one of the items last
  handed to the list, which are \<open>flatItems\<close>, or on none.
\<close>

definition selItem :: "env \<Rightarrow> model \<Rightarrow> item option" where
  "selItem ev m =
     (case selectedItem ev of
        None \<Rightarrow> None
      | Some i \<Rightarrow> if i < length (flatItems m) then Some (flatItems m ! i) else None)"

definition setExpanded :: "bool \<Rightarrow> node \<Rightarrow> node" where
  "setExpanded b n = Node (path n) (isDir n) (children n) b (selected n) (childrenLoaded n)"

text \<open>
  The key \<open>enter\<close> in the tree view. The items point into the tree under the root; an item
  that points to no node of it stands for a pointer the program cannot hold.
\<close>

definition keyEnter :: "env \<Rightarrow> model \<Rightarrow> error + model" where
  "keyEnter ev m =
     (case selItem ev m of
        None \<Rightarrow> Inr m
      | Some sel \<Rightarrow>
          (case root m of
             None \<Rightarrow> Inl NilPointer
           | Some rt \<Rightarrow>
               (case deref rt (node sel) of
                  None \<Rightarrow> Inl DanglingPointer
                | Some n \<Rightarrow>
                    if isDir n then
                      (let n1 = setExpanded (\<not> expanded n) n
                       in case (if expanded n1 \<and> \<not> childrenLoaded n1
                                then loadChildren ev n1 (watcher m)
                                else Inr (n1, watcher m)) of
                            Inl e \<Rightarrow> Inl e
                          | Inr (n2, w) \<Rightarrow>
                              (let rt' = assign (node sel) n2 rt
                               in Inr (m\<lparr>root := Some rt', watcher := w,
                                         flatItems := flatten rt'\<rparr>)))
                    else Inr m)))"

definition keySpace :: "env \<Rightarrow> model \<Rightarrow> error + model" where
  "keySpace ev m =
     (case selItem ev m of
        None \<Rightarrow> Inr m
      | Some sel \<Rightarrow>
          (case root m of
             None \<Rightarrow> Inl NilPointer
           | Some rt \<Rightarrow>
               (case deref rt (node sel) of
                  None \<Rightarrow> Inl DanglingPointer
                | Some n \<Rightarrow>
                    (let on = \<not> selected n
                     in Inr (m\<lparr>root := Some (assign (node sel) (toggleSelect on n) rt)\<rparr>)))))"

definition generatePrompt :: "env \<Rightarrow> model \<Rightarrow> error + string" where
  "generatePrompt ev m =
     (case root m of
        None \<Rightarrow> Inl NilPointer
      | Some rt \<Rightarrow> Inr (render ev rt (textarea m)))"

text \<open>\<open>fsnotify.Write\<close> is the bit \<open>1 << 1\<close> of the operation mask.\<close>

definition Write :: "32 word" where
  "Write = 2"

definition fsEvent :: "env \<Rightarrow> model \<Rightarrow> string \<Rightarrow> 32 word \<Rightarrow> error + model" where
  "fsEvent ev m name op =
     (let dir = pathDir ev name
      in case root m of
           None \<Rightarrow> Inl NilPointer
         | Some rt \<Rightarrow>
             (case findNode rt dir of
                None \<Rightarrow> Inr m
              | Some p \<Rightarrow>
                  (case deref rt p of
                     None \<Rightarrow> Inl DanglingPointer
                   | Some n \<Rightarrow>
                       if expanded n \<and> op \<noteq> Write then
                         (case loadChildren ev n (watcher m) of
                            Inl e \<Rightarrow> Inl e
                          | Inr (n', w) \<Rightarrow>
                              (let rt' = assign p n' rt
                               in Inr (m\<lparr>root := Some rt', watcher := w,
                                         flatItems := flatten rt'\<rparr>)))
                       else Inr m)))"

text \<open>
  \<open>Update\<close>, with the key of a \<open>tea.KeyMsg\<close> as its \<open>String()\<close>. The commands of the
  widgets and \<open>watchCmd\<close> are batched into \<open>CmdBatch\<close>.
\<close>

definition Update :: "env \<Rightarrow> model \<Rightarrow> msg \<Rightarrow> error + (model \<times> cmd)" where
  "Update ev m ms =
     (case ms of
        WindowSizeMsg w h \<Rightarrow> Inr (m\<lparr>width := w, height := h\<rparr>, CmdNil)
      | KeyMsg k \<Rightarrow>
          if k = ''ctrl+c'' \<or> k = ''q'' then Inr (m\<lparr>quitting := True\<rparr>, CmdQuit)
          else
            (case focus m of
               fileTreeView \<Rightarrow>
                 if \<not> settingFilter ev then
                   (if k = ''enter'' then
                      (case keyEnter ev m of Inl e \<Rightarrow> Inl e | Inr m' \<Rightarrow> Inr (m', CmdBatch))
                    else if k = '' '' then
                      (case keySpace ev m of Inl e \<Rightarrow> Inl e | Inr m' \<Rightarrow> Inr (m', CmdBatch))
                    else if k = ''tab'' then Inr (m\<lparr>focus := textAreaView\<rparr>, CmdBatch)
                    else Inr (m, CmdBatch))
                 else Inr (m, CmdBatch)
             | textAreaView \<Rightarrow>
                 (let m1 = (if k = ''tab'' then m\<lparr>focus := acceptView\<rparr> else m)
                  in Inr (m1\<lparr>textarea := taUpdate ev (KeyMsg k) (textarea m1)\<rparr>, CmdBatch))
             | acceptView \<Rightarrow>
                 if k = ''enter'' then
                   (case generatePrompt ev m of
                      Inl e \<Rightarrow> Inl e
                    | Inr doc \<Rightarrow> Inr (m\<lparr>prompt := doc\<rparr>, CmdQuit))
                 else if k = ''tab'' then Inr (m\<lparr>focus := fileTreeView\<rparr>, CmdBatch)
                 else Inr (m, CmdBatch))
      | FsEventMsg name op \<Rightarrow>
          (case fsEvent ev m name op of Inl e \<Rightarrow> Inl e | Inr m' \<Rightarrow> Inr (m', CmdBatch))
      | FsErrMsg e \<Rightarrow> Inr (m\<lparr>err := Some e\<rparr>, CmdBatch)
      | OtherMsg \<Rightarrow> Inr (m\<lparr>textarea := taUpdate ev OtherMsg (textarea m)\<rparr>, CmdBatch))"

text \<open>
  \<open>main\<close> after \<open>p.Run()\<close>: the document handed to \<open>pbcopy\<close>, if there is one.
\<close>

definition mainOutput :: "model \<Rightarrow> string option" where
  "mainOutput fm = (if prompt fm \<noteq> [] then Some (prompt fm) else None)"

text \<open>
  The states of a session: the model of \<open>newModel\<close> once \<open>Init\<close> has run, and every model
  that \<open>Update\<close> returns with a command other than \<open>tea.Quit\<close>. Each step meets its own
  file system and widget state; \<open>E\<close> says which of them the session may meet, and is
  \<open>\<lambda>ev. True\<close> for all sessions.
\<close>

inductive reachable :: "(env \<Rightarrow> bool) \<Rightarrow> model \<Rightarrow> bool" for E where
  start: "E ev \<Longrightarrow> newModel ev p = Inr m \<Longrightarrow> Init m = Inr c \<Longrightarrow> reachable E m"
| step: "reachable E m \<Longrightarrow> E ev \<Longrightarrow> Update ev m ms = Inr (m', c) \<Longrightarrow> c \<noteq> CmdQuit
         \<Longrightarrow> reachable E m'"

section \<open>Properties of trees\<close>

text \<open>
  The shapes of tree the program builds. A file has no children: \<open>loadChildren\<close> is
  only called on directories. Only a directory is expanded. A node with children has been
  loaded.
\<close>

fun filesLeaf :: "node \<Rightarrow> bool" where
  "filesLeaf (Node pa d cs e s l) = ((d \<or> cs = []) \<and> list_all filesLeaf cs)"

fun expandedOnDirs :: "node \<Rightarrow> bool" where
  "expandedOnDirs (Node pa d cs e s l) = ((d \<or> \<not> e) \<and> list_all expandedOnDirs cs)"

fun loadedOk :: "node \<Rightarrow> bool" where
  "loadedOk (Node pa d cs e s l) = ((l \<or> cs = []) \<and> list_all loadedOk cs)"

text \<open>What \<open>toggleSelect\<close> leaves alone in a node.\<close>

definition fields :: "node \<Rightarrow> string \<times> bool \<times> bool \<times> bool \<times> nat" where
  "fields n = (path n, isDir n, expanded n, childrenLoaded n, length (children n))"

section \<open>A small file system\<close>

text \<open>
  The directory \<open>/p\<close> holds the directory \<open>a\<close>, with the file \<open>x.txt\<close>, and the file
  \<open>b.txt\<close>, whose content has a null byte. The text area appends the character of a
  one-character key.
\<close>

definition exEnv :: env where
  "exEnv = \<lparr>
     pathAbs = Some,
     pathJoin = (\<lambda>d n. d @ ''/'' @ n),
     pathDir = (\<lambda>p. rev (tl (dropWhile (\<lambda>c. c \<noteq> CHR ''/'') (rev p)))),
     pathBase = (\<lambda>p. rev (takeWhile (\<lambda>c. c \<noteq> CHR ''/'') (rev p))),
     readDir = (\<lambda>p. if p = ''/p'' then Some [(''a'', True), (''b.txt'', False)]
                     else if p = ''/p/a'' then Some [(''x.txt'', False)]
                     else None),
     readFile = (\<lambda>p. if p = ''/p/a/x.txt'' then Some ''hi''
                      else if p = ''/p/b.txt'' then Some [CHR 0x00, CHR ''a'']
                      else None),
     newWatcherOk = True,
     settingFilter = False,
     selectedItem = Some 0,
     taUpdate = (\<lambda>ms s. case ms of KeyMsg [c] \<Rightarrow> s @ [c] | _ \<Rightarrow> s)\<rparr>"

definition exX :: node where
  "exX = Node ''/p/a/x.txt'' False [] False False False"

definition exA :: node where
  "exA = Node ''/p/a'' True [exX] True False True"

definition exB :: node where
  "exB = Node ''/p/b.txt'' False [] False True False"

definition exRoot :: node where
  "exRoot = Node ''/p'' True [exA, exB] True False True"

section \<open>The rows of the tree diagram\<close>

text \<open>
  \<open>generateTreeRec\<close> once more, keeping apart what it concatenates: for every node it
  renders, the pointer to the node, the node and the line written for it. A kept child is
  carried with its index among all children, which is the last step of its pointer.
\<close>

function treeRowsRec :: "env \<Rightarrow> node \<Rightarrow> ptr \<Rightarrow> string \<Rightarrow> bool \<Rightarrow> (ptr \<times> node \<times> string) list"
and treeRowsLoop :: "env \<Rightarrow> (nat \<times> node) list \<Rightarrow> ptr \<Rightarrow> nat \<Rightarrow> nat \<Rightarrow> string
    \<Rightarrow> (ptr \<times> node \<times> string) list" where
  "treeRowsRec ev (Node pa d cs e sl l) p pfx isLast =
     (let name = pathBase ev pa;
          s = (if isLast then pfx @ glyphLast @ name @ NL
               else pfx @ glyphMid @ name @ NL);
          pfx' = (if isLast then pfx @ ''    '' else pfx @ glyphBar);
          kept = filter (\<lambda>ic. keep (snd ic)) (enumerate 0 cs)
      in (p, Node pa d cs e sl l, s) # treeRowsLoop ev kept p (length kept) 0 pfx')"
| "treeRowsLoop ev [] p len i pfx = []"
| "treeRowsLoop ev (ic # ics) p len i pfx =
     (let isLastChild = (int i = int len - 1)
      in treeRowsRec ev (snd ic) (p @ [fst ic]) pfx isLastChild
         @ treeRowsLoop ev ics p len (i + 1) pfx)"
  by pat_completeness auto
termination
proof (relation "measure (\<lambda>x. case x of
          Inl (ev, n, p, pfx, isLast) \<Rightarrow> 2 * size n
        | Inr (ev, ics, p, len, i, pfx) \<Rightarrow> 2 * size_list (\<lambda>ic. size (snd ic)) ics + 1)", goal_cases)
  case 1
  show ?case by simp
next
  case (2 ev pa d cs e sl l p pfx isLast name s pfx' kept)
  have "size_list (\<lambda>ic. size (snd ic)) (filter (\<lambda>ic. keep (snd ic)) (enumerate k cs))
        \<le> size_list size cs" for k
  proof (induction cs arbitrary: k)
    case Nil
    show ?case by simp
  next
    case (Cons c cs)
    from Cons [of "Suc k"] show ?case by simp
  qed
  from this [of 0] 2 show ?case by simp
next
  case 3
  then show ?case by simp
next
  case 4
  then show ?case by simp
qed

definition treeRows :: "env \<Rightarrow> node \<Rightarrow> (ptr \<times> node \<times> string) list" where
  "treeRows ev rt =
     (let kept = filter (\<lambda>ic. keep (snd ic)) (enumerate 0 (children rt))
      in treeRowsLoop ev kept [] (length kept) 0 [])"


text \<open>A selected file, and all nodes of a tree in depth-first order, parents first.\<close>

definition selFile :: "node \<Rightarrow> bool" where
  "selFile n = (selected n \<and> \<not> isDir n)"

fun allNodes :: "node \<Rightarrow> node list" where
  "allNodes (Node pa d cs e s l) = Node pa d cs e s l # concat (map allNodes cs)"





text \<open>A session over the small file system, waiting for the confirmation.\<close>

definition exModel :: model where
  "exModel = \<lparr>root = Some exRoot, watcher = Some [''/p'', ''/p/a''],
     flatItems = flatten exRoot, focus = acceptView, err = None, prompt = [],
     width = 80, height = 24, quitting = False, textarea = ''fix''\<rparr>"

section \<open>What the program relies on\<close>

text \<open>
  The child \<open>loadChildren\<close> creates for a directory entry, and the state of a node after a
  successful load.
\<close>

definition mkChild :: "env \<Rightarrow> string \<Rightarrow> string \<times> bool \<Rightarrow> node" where
  "mkChild ev npath f = Node (pathJoin ev npath (fst f)) (snd f) [] False False False"

definition loaded :: "env \<Rightarrow> node \<Rightarrow> (string \<times> bool) list \<Rightarrow> node" where
  "loaded ev n files =
     Node (path n) (isDir n) (map (mkChild ev (path n)) files) (expanded n) (selected n) True"

text \<open>
  Typing directly: the text area adds to its text at most the character of a key message
  of one character, and nothing on any other message.
\<close>

definition typing :: "env \<Rightarrow> bool" where
  "typing ev =
     (\<forall>ms s. set (taUpdate ev ms s)
             \<subseteq> set s \<union> (case ms of KeyMsg [c] \<Rightarrow> {c} | _ \<Rightarrow> {}))"

text \<open>
  What holds of every state of a session: there is a root and a watcher, the root is an
  expanded directory, the tree has the three shapes above, no document has been produced,
  and every item of the list points to a node of the tree other than the root.
\<close>

definition inv :: "model \<Rightarrow> bool" where
  "inv m =
     (case root m of
        None \<Rightarrow> False
      | Some rt \<Rightarrow>
          watcher m \<noteq> None \<and> isDir rt \<and> expanded rt
          \<and> expandedOnDirs rt \<and> filesLeaf rt \<and> loadedOk rt
          \<and> prompt m = []
          \<and> list_all (\<lambda>it. node it \<noteq> [] \<and> deref rt (node it) \<noteq> None) (flatItems m))"

text \<open>
  Sessions for the examples: one whose list is editing its filter, and a loaded, empty
  directory \<open>/q\<close> that can no longer be read, or is read as empty.
\<close>

definition exEnvFilter :: env where
  "exEnvFilter = exEnv\<lparr>settingFilter := True\<rparr>"

definition exBrowse :: model where
  "exBrowse = exModel\<lparr>focus := fileTreeView\<rparr>"

definition exEdit :: model where
  "exEdit = exModel\<lparr>focus := textAreaView\<rparr>"

definition exEnvFail :: env where
  "exEnvFail = exEnv\<lparr>readDir := (\<lambda>p. None)\<rparr>"

definition exEnvEmpty :: env where
  "exEnvEmpty = exEnv\<lparr>readDir := (\<lambda>p. Some [])\<rparr>"

definition exQ :: node where
  "exQ = Node ''/q'' True [] True False True"

definition exModelQ :: model where
  "exModelQ = \<lparr>root = Some exQ, watcher = Some [''/q''], flatItems = [],
     focus = fileTreeView, err = None, prompt = [], width = 80, height = 24,
     quitting = False, textarea = []\<rparr>"

section \<open>Reading and writing through pointers\<close>

lemma deref_append: "deref rt p = Some n \<Longrightarrow> deref rt (p @ r) = deref n r"
  by (induction p arbitrary: rt) (auto split: if_splits)

lemma assign_below: "deref rt p = Some n \<Longrightarrow> deref (assign p v rt) (p @ r) = deref v r"
proof (induction p arbitrary: rt)
  case Nil then show ?case by simp
next
  case (Cons i p)
  obtain pa d cs e s l where rt: "rt = Node pa d cs e s l" by (cases rt)
  from Cons.prems rt have i: "i < length cs" and d: "deref (cs ! i) p = Some n"
    by (auto split: if_splits)
  from Cons.IH [OF d] rt i show ?case by simp
qed

lemma assign_outside:
  "\<not> prefix p q \<Longrightarrow> deref rt p = Some n \<Longrightarrow> deref rt q = Some x \<Longrightarrow>
   \<exists>x'. deref (assign p v rt) q = Some x' \<and> selected x' = selected x \<and> fields x' = fields x"
proof (induction p arbitrary: rt q)
  case Nil then show ?case by simp
next
  case (Cons i p)
  obtain pa d cs e s l where rt: "rt = Node pa d cs e s l" by (cases rt)
  from Cons.prems(2) rt have i: "i < length cs" and d: "deref (cs ! i) p = Some n"
    by (auto split: if_splits)
  show ?case
  proof (cases q)
    case Nil
    with Cons.prems(3) rt i show ?thesis by (auto simp: fields_def)
  next
    case (Cons j q')
    with Cons.prems(3) rt have j: "j < length cs" and dq: "deref (cs ! j) q' = Some x"
      by (auto split: if_splits)
    show ?thesis
    proof (cases "j = i")
      case True
      with Cons.prems(1) Cons have np: "\<not> prefix p q'" by simp
      from True dq have "deref (cs ! i) q' = Some x" by simp
      from Cons.IH [OF np d this] obtain x' where
        "deref (assign p v (cs ! i)) q' = Some x'" "selected x' = selected x"
        "fields x' = fields x"
        by blast
      with rt i True Cons show ?thesis by simp
    next
      case False
      with rt i j dq Cons show ?thesis by simp
    qed
  qed
qed

lemma deref_filesLeaf: "filesLeaf rt \<Longrightarrow> deref rt p = Some n \<Longrightarrow> filesLeaf n"
proof (induction p arbitrary: rt)
  case Nil then show ?case by simp
next
  case (Cons i p)
  obtain pa d cs e s l where rt: "rt = Node pa d cs e s l" by (cases rt)
  from Cons.prems rt have i: "i < length cs" and d: "deref (cs ! i) p = Some n"
    by (auto split: if_splits)
  from Cons.prems(1) rt i have "filesLeaf (cs ! i)" by (simp add: list_all_length)
  from Cons.IH [OF this d] show ?case .
qed

section \<open>Cascading selection\<close>

lemma toggleSelect_below:
  "filesLeaf n \<Longrightarrow> deref n q = Some x \<Longrightarrow>
   \<exists>x'. deref (toggleSelect on n) q = Some x' \<and> selected x' = on \<and> fields x' = fields x"
proof (induction q arbitrary: n)
  case Nil
  then show ?case by (cases n) (auto simp: fields_def)
next
  case (Cons i q)
  obtain pa d cs e s l where n: "n = Node pa d cs e s l" by (cases n)
  from Cons.prems n have i: "i < length cs" and dq: "deref (cs ! i) q = Some x"
    by (auto split: if_splits)
  from Cons.prems(1) n i have d: "d" and fl: "filesLeaf (cs ! i)"
    by (auto simp: list_all_length)
  from Cons.IH [OF fl dq] obtain x' where
    "deref (toggleSelect on (cs ! i)) q = Some x'" "selected x' = on" "fields x' = fields x"
    by blast
  with n i d show ?case by simp
qed

text \<open>
  Claim C2. In a tree whose files have no children, let \<open>n\<close> be the node at the pointer
  \<open>p\<close>. After \<open>n.toggleSelect(on)\<close> every node \<open>x\<close> of the tree is still there, with
  \<open>selected = on\<close> when it is \<open>n\<close> or lies below \<open>n\<close> (whatever its flag was), and with its
  former flag otherwise, which covers the ancestors of \<open>n\<close> and all other nodes; its path,
  kind, expanded and loaded flags and its number of children are unchanged.
\<close>

theorem toggleSelect_cascade:
  assumes "filesLeaf rt" and "deref rt p = Some n" and "deref rt q = Some x"
  shows "\<exists>x'. deref (assign p (toggleSelect on n) rt) q = Some x'
           \<and> selected x' = (if prefix p q then on else selected x)
           \<and> fields x' = fields x"
proof (cases "prefix p q")
  case True
  then obtain r where q: "q = p @ r" by (auto simp: prefix_def)
  from assms(1,2) have fl: "filesLeaf n" by (rule deref_filesLeaf)
  have "deref rt (p @ r) = deref n r"
    by (rule deref_append [OF assms(2)])
  with assms(3) q have "deref n r = Some x" by simp
  from toggleSelect_below [OF fl this] obtain x' where
    x': "deref (toggleSelect on n) r = Some x'" "selected x' = on" "fields x' = fields x"
    by blast
  from assign_below [OF assms(2)] q x'(1)
  have "deref (assign p (toggleSelect on n) rt) q = Some x'" by simp
  with x' True show ?thesis by simp
next
  case False
  from assign_outside [OF False assms(2,3)] False show ?thesis by auto
qed

theorem toggleSelect_cascade_witness:
  "filesLeaf exRoot \<and> deref exRoot [0] = Some exA \<and> deref exRoot [0, 0] = Some exX
   \<and> (\<exists>x'. deref (assign [0] (toggleSelect True exA) exRoot) [0, 0] = Some x'
           \<and> selected x' = (if prefix [0] [0, 0::nat] then True else selected exX)
           \<and> fields x' = fields exX)"
proof -
  have a: "filesLeaf exRoot" by (simp add: exRoot_def exA_def exB_def exX_def)
  have b: "deref exRoot [0] = Some exA" by (simp add: exRoot_def)
  have c: "deref exRoot [0, 0] = Some exX" by (simp add: exRoot_def exA_def)
  from a b c toggleSelect_cascade [OF a b c, of True] show ?thesis by simp
qed

section \<open>The flattened view is a pre-order walk\<close>
















section \<open>The tree diagram row by row\<close>

lemma generateTreeLoop_acc:
  "generateTreeLoop ev cs len i pfx s = s @ generateTreeLoop ev cs len i pfx []"
proof (induction cs arbitrary: i s)
  case Nil
  show ?case by simp
next
  case (Cons c cs)
  let ?r = "generateTreeRec ev c pfx (int i = int len - 1)"
  have "generateTreeLoop ev (c # cs) len i pfx s = (s @ ?r) @ generateTreeLoop ev cs len (i + 1) pfx []"
    using Cons [of "i + 1" "s @ ?r"] by (simp add: Let_def)
  also have "\<dots> = s @ generateTreeLoop ev (c # cs) len i pfx []"
    using Cons [of "i + 1" "?r"] by (simp add: Let_def)
  finally show ?case .
qed

lemma kept_enumerate:
  "map snd (filter (\<lambda>ic. keep (snd ic)) (enumerate k cs)) = filter keep cs"
  by (induction cs arbitrary: k) auto

lemma kept_enumerate_length:
  "length (filter (\<lambda>ic. keep (snd ic)) (enumerate k cs)) = length (filter keep cs)"
  using kept_enumerate [of k cs] by (metis length_map)

lemma in_kept:
  "ic \<in> set (enumerate 0 cs) \<longleftrightarrow> fst ic < length cs \<and> snd ic = cs ! fst ic"
  by (cases ic) (auto simp: in_set_enumerate_eq)

lemma rowsLoop_string_aux:
  assumes "\<And>ic p pfx isLast. ic \<in> set ics \<Longrightarrow>
     concat (map (\<lambda>t. snd (snd t)) (treeRowsRec ev (snd ic) p pfx isLast))
     = generateTreeRec ev (snd ic) pfx isLast"
  shows "concat (map (\<lambda>t. snd (snd t)) (treeRowsLoop ev ics p len i pfx))
         = generateTreeLoop ev (map snd ics) len i pfx []"
  using assms
proof (induction ics arbitrary: i)
  case Nil
  show ?case by simp
next
  case (Cons ic ics)
  have a: "concat (map (\<lambda>t. snd (snd t)) (treeRowsRec ev (snd ic) (p @ [fst ic]) pfx (int i = int len - 1)))
           = generateTreeRec ev (snd ic) pfx (int i = int len - 1)"
    by (rule Cons.prems) simp
  have b: "concat (map (\<lambda>t. snd (snd t)) (treeRowsLoop ev ics p len (i + 1) pfx))
           = generateTreeLoop ev (map snd ics) len (i + 1) pfx []"
    by (rule Cons.IH) (rule Cons.prems, simp)
  show ?case
    using a b generateTreeLoop_acc [of ev "map snd ics" len "i + 1" pfx
        "generateTreeRec ev (snd ic) pfx (int i = int len - 1)"]
    by (simp add: Let_def)
qed

lemma rows_string:
  "concat (map (\<lambda>t. snd (snd t)) (treeRowsRec ev n p pfx isLast)) = generateTreeRec ev n pfx isLast"
proof (induction n arbitrary: p pfx isLast)
  case (Node pa d cs e sl l)
  let ?kept = "filter (\<lambda>ic. keep (snd ic)) (enumerate 0 cs)"
  have l: "\<And>p len i pfx. concat (map (\<lambda>t. snd (snd t)) (treeRowsLoop ev ?kept p len i pfx))
         = generateTreeLoop ev (map snd ?kept) len i pfx []"
  proof (rule rowsLoop_string_aux)
    fix ic p pfx isLast
    assume "ic \<in> set ?kept"
    then have "snd ic \<in> set cs" by (auto simp: in_kept)
    then show "concat (map (\<lambda>t. snd (snd t)) (treeRowsRec ev (snd ic) p pfx isLast))
               = generateTreeRec ev (snd ic) pfx isLast"
      by (rule Node.IH)
  qed
  define pfx' where "pfx' = (if isLast then pfx @ ''    '' else pfx @ glyphBar)"
  define row where "row = (if isLast then pfx @ glyphLast @ pathBase ev pa @ NL
                           else pfx @ glyphMid @ pathBase ev pa @ NL)"
  have k: "map snd ?kept = filter keep cs" "length ?kept = length (filter keep cs)"
    by (simp_all add: kept_enumerate kept_enumerate_length)
  have "concat (map (\<lambda>t. snd (snd t)) (treeRowsRec ev (Node pa d cs e sl l) p pfx isLast))
        = row @ concat (map (\<lambda>t. snd (snd t)) (treeRowsLoop ev ?kept p (length ?kept) 0 pfx'))"
    by (simp add: Let_def pfx'_def row_def)
  also have "\<dots> = row @ generateTreeLoop ev (filter keep cs) (length (filter keep cs)) 0 pfx' []"
    by (simp only: l k)
  also have "\<dots> = generateTreeLoop ev (filter keep cs) (length (filter keep cs)) 0 pfx' row"
    by (rule generateTreeLoop_acc [symmetric])
  also have "\<dots> = generateTreeRec ev (Node pa d cs e sl l) pfx isLast"
    by (simp add: Let_def pfx'_def row_def)
  finally show ?case .
qed

lemma treeRows_string:
  "concat (map (\<lambda>t. snd (snd t)) (treeRows ev rt)) = generateFileTree ev rt"
proof -
  let ?kept = "filter (\<lambda>ic. keep (snd ic)) (enumerate 0 (children rt))"
  have "concat (map (\<lambda>t. snd (snd t)) (treeRowsLoop ev ?kept [] (length ?kept) 0 []))
        = generateTreeLoop ev (map snd ?kept) (length ?kept) 0 [] []"
    by (rule rowsLoop_string_aux) (rule rows_string)
  then show ?thesis
    by (simp add: treeRows_def generateFileTree_def Let_def kept_enumerate kept_enumerate_length)
qed

lemma in_rowsLoopD:
  "t \<in> set (treeRowsLoop ev ics p len i pfx) \<Longrightarrow>
   \<exists>ic \<in> set ics. \<exists>b. t \<in> set (treeRowsRec ev (snd ic) (p @ [fst ic]) pfx b)"
  by (induction ics arbitrary: i) (auto simp: Let_def)






section \<open>Which nodes the tree diagram keeps\<close>












section \<open>The selected files\<close>

lemma collectLoop_acc_aux:
  assumes "\<And>c acc. c \<in> set cs \<Longrightarrow> collect c acc = acc @ collect c []"
  shows "collectLoop cs acc = acc @ collectLoop cs []"
  using assms
proof (induction cs arbitrary: acc)
  case Nil
  show ?case by simp
next
  case (Cons c cs)
  have c: "\<And>acc. collect c acc = acc @ collect c []"
    by (rule Cons.prems) simp
  have l: "\<And>acc. collectLoop cs acc = acc @ collectLoop cs []"
    by (rule Cons.IH) (rule Cons.prems, simp)
  have "collectLoop (c # cs) acc = collect c acc @ collectLoop cs []"
    using l [of "collect c acc"] by simp
  also have "\<dots> = acc @ collect c [] @ collectLoop cs []"
    using c [of acc] by simp
  also have "collect c [] @ collectLoop cs [] = collectLoop (c # cs) []"
    using l [of "collect c []"] by simp
  finally show ?case .
qed

lemma collect_acc: "collect n acc = acc @ collect n []"
proof (induction n arbitrary: acc)
  case (Node pa d cs e s l)
  define t where "t = (if s \<and> \<not> d then [pa] else [])"
  have lp: "\<And>acc. collectLoop cs acc = acc @ collectLoop cs []"
    by (rule collectLoop_acc_aux) (rule Node.IH)
  have u: "collect (Node pa d cs e s l) acc = (if l then collectLoop cs (acc @ t) else acc @ t)" for acc
    by (simp add: t_def)
  show ?case
  proof (cases l)
    case True
    have "collect (Node pa d cs e s l) acc = (acc @ t) @ collectLoop cs []"
      using True u [of acc] lp [of "acc @ t"] by simp
    moreover have "collect (Node pa d cs e s l) [] = t @ collectLoop cs []"
      using True u [of "[]"] lp [of t] by simp
    ultimately show ?thesis by simp
  next
    case False
    with u [of acc] u [of "[]"] show ?thesis by simp
  qed
qed

lemma collectLoop_acc: "collectLoop cs acc = acc @ collectLoop cs []"
  by (rule collectLoop_acc_aux) (rule collect_acc)

lemma collectLoop_concat: "collectLoop cs [] = concat (map (\<lambda>c. collect c []) cs)"
proof (induction cs)
  case Nil
  show ?case by simp
next
  case (Cons c cs)
  have "collectLoop (c # cs) [] = collect c [] @ collectLoop cs []"
    using collectLoop_acc [of cs "collect c []"] by simp
  with Cons show ?case by simp
qed

lemma collect_unfold:
  "collect n [] =
     (if selFile n then [path n] else [])
     @ (if childrenLoaded n then concat (map (\<lambda>c. collect c []) (children n)) else [])"
proof (cases n)
  case (Node pa d cs e s l)
  define t where "t = (if s \<and> \<not> d then [pa] else [])"
  have u: "collect n [] = (if l then collectLoop cs t else t)"
    by (simp add: Node t_def)
  have t: "t = (if selFile n then [path n] else [])"
    by (simp add: Node t_def selFile_def)
  show ?thesis
  proof (cases l)
    case True
    have "collectLoop cs t = t @ concat (map (\<lambda>c. collect c []) cs)"
      using collectLoop_acc [of cs t] by (simp add: collectLoop_concat)
    with u True have "collect n [] = t @ concat (map (\<lambda>c. collect c []) cs)" by simp
    with t True Node show ?thesis by simp
  next
    case False
    with u have "collect n [] = t" by simp
    with t False Node show ?thesis by simp
  qed
qed








section \<open>The document and the shapes of tree\<close>

lemma fileLoop_concat: "fileLoop ev ps sb = sb @ concat (map (fileBlock ev) ps)"
  by (induction ps arbitrary: sb) auto

lemma render_unfold:
  "render ev rt userText =
     ''<file_tree>'' @ NL @ generateFileTree ev rt @ ''</file_tree>'' @ NL
     @ concat (map (fileBlock ev) (collect rt []))
     @ ''<user_request>'' @ NL @ userText @ NL @ ''</user_request>''"
  by (simp add: render_def Let_def fileLoop_concat)




lemma filesLeaf_toggleSelect: "filesLeaf (toggleSelect on n) = filesLeaf n"
  by (induction n) (auto simp: list_all_iff)

lemma expandedOnDirs_toggleSelect: "expandedOnDirs (toggleSelect on n) = expandedOnDirs n"
  by (induction n) (auto simp: list_all_iff)

lemma isDir_assign: "deref rt p = Some n \<Longrightarrow> isDir v = isDir n \<Longrightarrow> isDir (assign p v rt) = isDir rt"
  by (cases p; cases rt) (auto split: if_splits)


lemma filesLeaf_assign:
  "filesLeaf rt \<Longrightarrow> deref rt p = Some n \<Longrightarrow> filesLeaf v \<Longrightarrow> filesLeaf (assign p v rt)"
proof (induction p arbitrary: rt)
  case Nil then show ?case by simp
next
  case (Cons i p)
  obtain pa d cs e s l where rt: "rt = Node pa d cs e s l" by (cases rt)
  from Cons.prems(2) rt have i: "i < length cs" and dn: "deref (cs ! i) p = Some n"
    by (auto split: if_splits)
  from Cons.prems(1) rt i have "filesLeaf (cs ! i)" by (simp add: list_all_length)
  from Cons.IH [OF this dn Cons.prems(3)] have "filesLeaf (assign p v (cs ! i))" .
  with Cons.prems(1) rt i show ?case
    by (auto simp: list_all_length nth_list_update)
qed

lemma expandedOnDirs_assign:
  "expandedOnDirs rt \<Longrightarrow> deref rt p = Some n \<Longrightarrow> expandedOnDirs v \<Longrightarrow> expandedOnDirs (assign p v rt)"
proof (induction p arbitrary: rt)
  case Nil then show ?case by simp
next
  case (Cons i p)
  obtain pa d cs e s l where rt: "rt = Node pa d cs e s l" by (cases rt)
  from Cons.prems(2) rt have i: "i < length cs" and dn: "deref (cs ! i) p = Some n"
    by (auto split: if_splits)
  from Cons.prems(1) rt i have "expandedOnDirs (cs ! i)" by (simp add: list_all_length)
  from Cons.IH [OF this dn Cons.prems(3)] have "expandedOnDirs (assign p v (cs ! i))" .
  with Cons.prems(1) rt i show ?case
    by (auto simp: list_all_length nth_list_update)
qed


section \<open>Null bytes and blocks of the document\<close>

lemma allNodes_child:
  "i < length (children n) \<Longrightarrow> set (allNodes (children n ! i)) \<subseteq> set (allNodes n)"
proof (cases n)
  case (Node pa d cs e s l)
  assume "i < length (children n)"
  with Node have "children n ! i \<in> set cs" by simp
  with Node show ?thesis by auto
qed

lemma rows_nul:
  "CHR 0x00 \<notin> set pfx \<Longrightarrow>
   (\<forall>x \<in> set (allNodes n). CHR 0x00 \<notin> set (pathBase ev (path x))) \<Longrightarrow>
   t \<in> set (treeRowsRec ev n p pfx isLast) \<Longrightarrow> CHR 0x00 \<notin> set (snd (snd t))"
proof (induction n arbitrary: p pfx isLast)
  case (Node pa d cs e sl l)
  let ?n = "Node pa d cs e sl l"
  define kept where "kept = filter (\<lambda>ic. keep (snd ic)) (enumerate 0 cs)"
  define pfx' where "pfx' = (if isLast then pfx @ ''    '' else pfx @ glyphBar)"
  define row where "row = (if isLast then pfx @ glyphLast @ pathBase ev pa @ NL
                           else pfx @ glyphMid @ pathBase ev pa @ NL)"
  have unf: "treeRowsRec ev ?n p pfx isLast = (p, ?n, row) # treeRowsLoop ev kept p (length kept) 0 pfx'"
    by (simp add: Let_def kept_def pfx'_def row_def)
  from Node.prems(2) have base: "CHR 0x00 \<notin> set (pathBase ev pa)" by simp
  with Node.prems(1) have row: "CHR 0x00 \<notin> set row"
    by (simp add: row_def glyphLast_def glyphMid_def)
  from Node.prems(1) have pfx': "CHR 0x00 \<notin> set pfx'"
    by (simp add: pfx'_def glyphBar_def)
  from Node.prems(3) unf have "t = (p, ?n, row) \<or> t \<in> set (treeRowsLoop ev kept p (length kept) 0 pfx')"
    by simp
  then show ?case
  proof
    assume "t = (p, ?n, row)"
    with row show ?thesis by simp
  next
    assume "t \<in> set (treeRowsLoop ev kept p (length kept) 0 pfx')"
    from in_rowsLoopD [OF this] obtain ic b where ic: "ic \<in> set kept"
      and t: "t \<in> set (treeRowsRec ev (snd ic) (p @ [fst ic]) pfx' b)" by blast
    from ic have i: "fst ic < length cs" "snd ic = cs ! fst ic" by (auto simp: kept_def in_kept)
    then have m: "snd ic \<in> set cs" by simp
    have "set (allNodes (snd ic)) \<subseteq> set (allNodes ?n)"
      using allNodes_child [of "fst ic" ?n] i by simp
    with Node.prems(2) have "\<forall>x \<in> set (allNodes (snd ic)). CHR 0x00 \<notin> set (pathBase ev (path x))"
      by blast
    from Node.IH [OF m pfx' this t] show ?thesis .
  qed
qed

lemma generateFileTree_nul:
  assumes "\<forall>x \<in> set (allNodes rt). CHR 0x00 \<notin> set (pathBase ev (path x))"
  shows "CHR 0x00 \<notin> set (generateFileTree ev rt)"
proof -
  define kept where "kept = filter (\<lambda>ic. keep (snd ic)) (enumerate 0 (children rt))"
  have "CHR 0x00 \<notin> set (snd (snd t))" if "t \<in> set (treeRows ev rt)" for t
  proof -
    from that have "t \<in> set (treeRowsLoop ev kept [] (length kept) 0 [])"
      by (simp add: treeRows_def Let_def kept_def)
    from in_rowsLoopD [OF this] obtain ic b where ic: "ic \<in> set kept"
      and t: "t \<in> set (treeRowsRec ev (snd ic) ([] @ [fst ic]) [] b)" by blast
    from ic have i: "fst ic < length (children rt)" "snd ic = children rt ! fst ic"
      by (auto simp: kept_def in_kept)
    have "set (allNodes (snd ic)) \<subseteq> set (allNodes rt)"
      using allNodes_child [of "fst ic" rt] i by simp
    with assms have "\<forall>x \<in> set (allNodes (snd ic)). CHR 0x00 \<notin> set (pathBase ev (path x))"
      by blast
    from rows_nul [OF _ this t] show ?thesis by simp
  qed
  then show ?thesis by (auto simp: treeRows_string [symmetric])
qed

lemma fileContent_nul: "CHR 0x00 \<notin> set (fileContent ev p)"
  by (simp add: fileContent_def split: option.split)

lemma fileBlock_nul: "CHR 0x00 \<notin> set p \<Longrightarrow> CHR 0x00 \<notin> set (fileBlock ev p)"
  using fileContent_nul [of ev p] by (simp add: fileBlock_def)

lemma collect_paths: "p \<in> set (collect rt []) \<Longrightarrow> \<exists>x \<in> set (allNodes rt). p = path x"
proof (induction rt)
  case (Node pa d cs e s l)
  let ?n = "Node pa d cs e s l"
  from Node.prems have "p = pa \<or> (\<exists>c \<in> set cs. p \<in> set (collect c []))"
    by (subst (asm) collect_unfold) (auto split: if_splits)
  then show ?case
  proof
    assume "p = pa"
    then show ?thesis by simp
  next
    assume "\<exists>c \<in> set cs. p \<in> set (collect c [])"
    then obtain c where c: "c \<in> set cs" "p \<in> set (collect c [])" by auto
    from Node.IH [OF this] c(1) show ?thesis by auto
  qed
qed

lemma render_nul:
  assumes "CHR 0x00 \<notin> set userText"
    and "\<forall>x \<in> set (allNodes rt). CHR 0x00 \<notin> set (path x) \<and> CHR 0x00 \<notin> set (pathBase ev (path x))"
  shows "CHR 0x00 \<notin> set (render ev rt userText)"
proof -
  from assms(2) have "CHR 0x00 \<notin> set (generateFileTree ev rt)"
    by (intro generateFileTree_nul) simp
  moreover have "CHR 0x00 \<notin> set (fileBlock ev p)" if "p \<in> set (collect rt [])" for p
  proof -
    from collect_paths [OF that] obtain x where "x \<in> set (allNodes rt)" "p = path x" by auto
    with assms(2) have "CHR 0x00 \<notin> set p" by simp
    then show ?thesis by (rule fileBlock_nul)
  qed
  ultimately show ?thesis using assms(1) by (auto simp: render_unfold)
qed

lemma block_sublist:
  assumes "p \<in> set (collect rt [])"
  shows "sublist (fileBlock ev p) (render ev rt userText)"
proof -
  from assms obtain l1 l2 where "collect rt [] = l1 @ p # l2" by (auto dest: split_list)
  then have "render ev rt userText =
      (''<file_tree>'' @ NL @ generateFileTree ev rt @ ''</file_tree>'' @ NL
       @ concat (map (fileBlock ev) l1))
      @ fileBlock ev p
      @ (concat (map (fileBlock ev) l2) @ ''<user_request>'' @ NL @ userText @ NL @ ''</user_request>'')"
    by (simp add: render_unfold)
  then show ?thesis unfolding sublist_def by (intro exI)
qed

section \<open>The pruned tree segment\<close>





section \<open>The file-contents segment\<close>




section \<open>Unreadable and binary files\<close>

text \<open>
  Claim C3. The block of every collected file is part of the document, whatever reading
  any file gives. For a file that cannot be read or whose content has a null byte the block
  holds the placeholder where the content would be. The content written for a file never
  has a null byte, and the document has none when the text of the user, the paths of the
  tree and their last components have none. \<open>generatePrompt\<close> returns the document
  whenever there is a root, and the confirmation ends the session with it: no result of
  \<open>os.ReadFile\<close> makes it fail.
\<close>

theorem binary_placeholder:
  "(p \<in> set (collect rt []) \<longrightarrow> sublist (fileBlock ev p) (render ev rt userText))
   \<and> (readFile ev p = None \<or> (\<exists>b. readFile ev p = Some b \<and> CHR 0x00 \<in> set b) \<longrightarrow>
        fileBlock ev p =
          ''<file>'' @ NL @ ''<file_path>'' @ p @ ''</file_path>'' @ NL @ ''<file_content>'' @ NL
          @ ''[Binary file]'' @ NL @ ''</file_content>'' @ NL @ ''</file>'' @ NL)
   \<and> CHR 0x00 \<notin> set (fileContent ev p)
   \<and> (CHR 0x00 \<notin> set userText
        \<and> (\<forall>x \<in> set (allNodes rt).
              CHR 0x00 \<notin> set (path x) \<and> CHR 0x00 \<notin> set (pathBase ev (path x)))
        \<longrightarrow> CHR 0x00 \<notin> set (render ev rt userText))
   \<and> (root m = Some rt \<longrightarrow> generatePrompt ev m = Inr (render ev rt (textarea m)))
   \<and> (root m = Some rt \<and> focus m = acceptView \<longrightarrow>
        Update ev m (KeyMsg ''enter'')
        = Inr (m\<lparr>prompt := render ev rt (textarea m)\<rparr>, CmdQuit))"
proof (intro conjI impI)
  assume "p \<in> set (collect rt [])"
  then show "sublist (fileBlock ev p) (render ev rt userText)" by (rule block_sublist)
next
  assume "readFile ev p = None \<or> (\<exists>b. readFile ev p = Some b \<and> CHR 0x00 \<in> set b)"
  then have "fileContent ev p = ''[Binary file]''"
    by (auto simp: fileContent_def)
  then show "fileBlock ev p =
          ''<file>'' @ NL @ ''<file_path>'' @ p @ ''</file_path>'' @ NL @ ''<file_content>'' @ NL
          @ ''[Binary file]'' @ NL @ ''</file_content>'' @ NL @ ''</file>'' @ NL"
    by (simp add: fileBlock_def)
next
  show "CHR 0x00 \<notin> set (fileContent ev p)" by (rule fileContent_nul)
next
  assume "CHR 0x00 \<notin> set userText
        \<and> (\<forall>x \<in> set (allNodes rt).
              CHR 0x00 \<notin> set (path x) \<and> CHR 0x00 \<notin> set (pathBase ev (path x)))"
  then show "CHR 0x00 \<notin> set (render ev rt userText)"
    by (intro render_nul) simp_all
next
  assume "root m = Some rt"
  then show "generatePrompt ev m = Inr (render ev rt (textarea m))"
    by (simp add: generatePrompt_def)
next
  assume "root m = Some rt \<and> focus m = acceptView"
  then show "Update ev m (KeyMsg ''enter'')
        = Inr (m\<lparr>prompt := render ev rt (textarea m)\<rparr>, CmdQuit)"
    by (simp add: Update_def generatePrompt_def)
qed

theorem binary_placeholder_witness:
  "''/p/b.txt'' \<in> set (collect exRoot [])
   \<and> readFile exEnv ''/p/b.txt'' = Some [CHR 0x00, CHR ''a'']
   \<and> root exModel = Some exRoot \<and> focus exModel = acceptView
   \<and> sublist (fileBlock exEnv ''/p/b.txt'') (render exEnv exRoot ''fix'')
   \<and> fileBlock exEnv ''/p/b.txt'' =
        ''<file>'' @ NL @ ''<file_path>'' @ ''/p/b.txt'' @ ''</file_path>'' @ NL
        @ ''<file_content>'' @ NL @ ''[Binary file]'' @ NL @ ''</file_content>'' @ NL
        @ ''</file>'' @ NL
   \<and> CHR 0x00 \<notin> set (render exEnv exRoot ''fix'')
   \<and> generatePrompt exEnv exModel = Inr (render exEnv exRoot ''fix'')
   \<and> Update exEnv exModel (KeyMsg ''enter'')
       = Inr (exModel\<lparr>prompt := render exEnv exRoot ''fix''\<rparr>, CmdQuit)"
proof -
  note t = binary_placeholder [of "''/p/b.txt''" exRoot exEnv "''fix''" exModel]
  have a: "''/p/b.txt'' \<in> set (collect exRoot [])"
    by (simp add: exRoot_def exA_def exB_def exX_def)
  have b: "readFile exEnv ''/p/b.txt'' = Some [CHR 0x00, CHR ''a'']"
    by (simp add: exEnv_def)
  have c: "root exModel = Some exRoot" "focus exModel = acceptView" "textarea exModel = ''fix''"
    by (simp_all add: exModel_def)
  have d: "CHR 0x00 \<notin> set ''fix''
        \<and> (\<forall>x \<in> set (allNodes exRoot).
              CHR 0x00 \<notin> set (path x) \<and> CHR 0x00 \<notin> set (pathBase exEnv (path x)))"
    by (simp add: exRoot_def exA_def exB_def exX_def exEnv_def)
  have 1: "sublist (fileBlock exEnv ''/p/b.txt'') (render exEnv exRoot ''fix'')"
    using t a by (elim conjE) simp
  have 2: "fileBlock exEnv ''/p/b.txt'' =
        ''<file>'' @ NL @ ''<file_path>'' @ ''/p/b.txt'' @ ''</file_path>'' @ NL
        @ ''<file_content>'' @ NL @ ''[Binary file]'' @ NL @ ''</file_content>'' @ NL
        @ ''</file>'' @ NL"
    using t b by (elim conjE) simp
  have 3: "CHR 0x00 \<notin> set (render exEnv exRoot ''fix'')"
    using t d by (elim conjE) blast
  have 4: "generatePrompt exEnv exModel = Inr (render exEnv exRoot ''fix'')"
    using t c by (elim conjE) simp
  have 5: "Update exEnv exModel (KeyMsg ''enter'')
       = Inr (exModel\<lparr>prompt := render exEnv exRoot ''fix''\<rparr>, CmdQuit)"
    using t c by (elim conjE) simp
  from a b c 1 2 3 4 5 show ?thesis by simp
qed

end
